theory Spec2Isabelle
  imports Main "HOL-Library.Sublist" "HOL-Library.Word"
begin

unbundle bit_operations_syntax

section \<open>Common types\<close>

text \<open>
  Go's \<open>error\<close> values are modelled by their message, \<open>os.FileMode\<close> (a \<open>uint32\<close>) by a
  32-bit word, and \<open>time.Time\<close> by the instant it denotes (the code only compares times with
  \<open>Equal\<close>, which compares instants). Calls to the logger and to \<open>fmt.Println\<close> leave the
  program state untouched and are not modelled.
\<close>

type_synonym error = string
type_synonym FileMode = "32 word"
type_synonym Time = int

section \<open>Library functions on paths\<close>

text \<open>
  \<open>filepath.Clean\<close> and \<open>filepath.Join\<close> of the Go standard library, for the Unix separator.
  \<open>Clean\<close> works on the elements between separators: empty elements and \<open>.\<close> are dropped,
  \<open>..\<close> removes the element before it when there is one to remove, is kept at the start of a
  relative path and is dropped at the start of a rooted one. An empty result is \<open>.\<close>.
\<close>

fun split_sep :: "string \<Rightarrow> string list" where
  "split_sep [] = [[]]"
| "split_sep (c # cs) =
     (if c = CHR ''/'' then [] # split_sep cs
      else (case split_sep cs of
              [] \<Rightarrow> [[c]]
            | x # xs \<Rightarrow> (c # x) # xs))"

fun join_sep :: "string list \<Rightarrow> string" where
  "join_sep [] = []"
| "join_sep [e] = e"
| "join_sep (e # es) = e @ ''/'' @ join_sep es"

fun clean_elems :: "bool \<Rightarrow> string list \<Rightarrow> string list \<Rightarrow> string list" where
  "clean_elems rooted [] out = rev out"
| "clean_elems rooted (e # es) out =
     (if e = [] \<or> e = ''.'' then clean_elems rooted es out
      else if e = ''..'' then
        (case out of
           [] \<Rightarrow> if rooted then clean_elems rooted es out
                 else clean_elems rooted es [''..'']
         | t # ts \<Rightarrow>
             if t \<noteq> ''..'' then clean_elems rooted es ts
             else if rooted then clean_elems rooted es out
             else clean_elems rooted es (''..'' # out))
      else clean_elems rooted es (e # out))"

definition Clean :: "string \<Rightarrow> string" where
  "Clean path =
     (if path = [] then ''.''
      else
        let rooted = (hd path = CHR ''/'');
            body = join_sep (clean_elems rooted (split_sep path) [])
        in if rooted then ''/'' @ body
           else if body = [] then ''.''
           else body)"

definition Join :: "string list \<Rightarrow> string" where
  "Join elem =
     (case dropWhile (\<lambda>e. e = []) elem of
        [] \<Rightarrow> []
      | es \<Rightarrow> Clean (join_sep es))"

text \<open>
  \<open>filepath.Base\<close>: the last element of the path, after trailing separators are removed;
  \<open>.\<close> for the empty path and the separator for a path of separators only.
\<close>

definition Base :: "string \<Rightarrow> string" where
  "Base path =
     (if path = [] then ''.''
      else
        let stripped = rev (dropWhile (\<lambda>c. c = CHR ''/'') (rev path));
            elem = last (split_sep stripped)
        in if elem = [] then ''/'' else elem)"

definition HasPrefix :: "string \<Rightarrow> string \<Rightarrow> bool" where
  "HasPrefix s pre = prefix pre s"

section \<open>The deployer\<close>

definition CONFIG_ID :: string where
  "CONFIG_ID = ''deploy.json''"

record DeployConfig =
  DeployLocation :: string
  Executable :: string
  Args :: "string list"
  SourceLocation :: string
  EnvironmentVariables :: "string list"

record Process =
  Pid :: int

record Cmd =
  cmd_Path :: string
  cmd_Args :: "string list"
  cmd_Dir :: string
  cmd_Env :: "string list"
  cmd_Process :: "Process option"
  cmd_Err :: "error option"

record Deployer =
  MountLocation :: string
  Config :: DeployConfig
  currentCmd :: "Cmd option"
  isRunning :: bool

record FileInfo =
  info_IsDir :: bool
  info_Mode :: FileMode
  info_ModTime :: Time
  info_Size :: "64 word"

text \<open>One call of the function that \<open>filepath.Walk\<close> is given: the path, its info, the error.\<close>

record visit =
  v_path :: string
  v_info :: FileInfo
  v_err :: "error option"

text \<open>
  What the operating system and the library answer. Every call whose result the code
  branches on is a field; the deployer and the watcher are functions of these answers.
  \<open>Wait_done\<close> tells whether \<open>Wait\<close> reports the exit before the five-second timer fires.
  \<open>LookPath\<close> gives the path it has found (empty when none) and its error; \<open>Start\<close> is the
  start of the process itself, once \<open>Cmd.Start\<close> has passed its own checks.
  A \<open>range\<close> over a Go map yields its keys in an order the runtime chooses: the three
  \<open>range_\<close> fields are the orders of the three loops over maps in \<open>scanFiles\<close>.
\<close>

record sys =
  ReadFile :: "string \<Rightarrow> error + string"
  Unmarshal :: "string \<Rightarrow> error + DeployConfig"
  Signal_SIGTERM :: "Process \<Rightarrow> error option"
  Process_Kill :: "Process \<Rightarrow> error option"
  Wait_done :: "Cmd \<Rightarrow> bool"
  MkdirAll :: "string \<Rightarrow> FileMode \<Rightarrow> error option"
  WriteFile :: "string \<Rightarrow> string \<Rightarrow> FileMode \<Rightarrow> error option"
  Walk_visits :: "string \<Rightarrow> visit list"
  Rel :: "string \<Rightarrow> string \<Rightarrow> error + string"
  Environ :: "string list"
  Getenv :: "string \<Rightarrow> string"
  LookPath :: "string \<Rightarrow> string \<times> error option"
  Start :: "Cmd \<Rightarrow> error + Process"
  range_known :: "string list"
  range_current :: "string list"
  range_merged :: "string list"

text \<open>The calls that act on the outside world, in the order they are made.\<close>

datatype effect =
    SentSIGTERM Process
  | SentKill Process
  | CalledMkdirAll string FileMode
  | CalledWriteFile string string FileMode
  | CalledStart Cmd
  | Slept nat

record world =
  deployer :: Deployer
  effects :: "effect list"

definition emit :: "effect \<Rightarrow> world \<Rightarrow> world" where
  "emit e w = w\<lparr>effects := effects w @ [e]\<rparr>"

text \<open>
  \<open>LoadDeployConfig\<close> reads and parses the configuration file of the share. \<open>Inl\<close> is a panic
  with its message, \<open>Inr None\<close> the nil result after a logged failure.
\<close>

definition LoadDeployConfig :: "sys \<Rightarrow> string \<Rightarrow> bool \<Rightarrow> string + DeployConfig option" where
  "LoadDeployConfig os share panicOnFailure =
     (let config_location = Join [share, CONFIG_ID]
      in case ReadFile os config_location of
           Inl err \<Rightarrow>
             (let err_msg = ''failed to load config: '' @ err @ [CHR 0x0A]
              in if panicOnFailure then Inl err_msg else Inr None)
         | Inr data \<Rightarrow>
             (case Unmarshal os data of
                Inl err \<Rightarrow>
                  (let err_msg = ''failed to marshel config, json format probably wrong: ''
                                 @ err @ [CHR 0x0A]
                   in if panicOnFailure then Inl err_msg else Inr None)
              | Inr config \<Rightarrow> Inr (Some config)))"

text \<open>
  \<open>reloadConfig\<close> loads without panicking and replaces the configuration only when the
  result is not nil. The panic branch cannot be reached with \<open>panicOnFailure = false\<close>
  (lemma \<open>LoadDeployConfig_no_panic\<close> below).
\<close>

definition reloadConfig :: "sys \<Rightarrow> Deployer \<Rightarrow> Deployer" where
  "reloadConfig os d =
     (case LoadDeployConfig os (MountLocation d) False of
        Inr (Some cfg) \<Rightarrow> d\<lparr>Config := cfg\<rparr>
      | Inr None \<Rightarrow> d
      | Inl msg \<Rightarrow> d)"

definition isSourceFile :: "Deployer \<Rightarrow> string \<Rightarrow> bool" where
  "isSourceFile d relPath =
     (let sourceDir = SourceLocation (Config d);
          inSrcLoc = HasPrefix (Clean relPath) (Clean sourceDir)
      in inSrcLoc)"

text \<open>
  \<open>Kill\<close>: nothing to do without a command or a process; otherwise SIGTERM, a forced kill
  when the signal cannot be sent (an error return when that fails too), then the wait with
  its timeout and the two assignments at the end (\<open>Kill_wait\<close>).
\<close>

definition Kill_wait :: "sys \<Rightarrow> Cmd \<Rightarrow> Process \<Rightarrow> world \<Rightarrow> error option \<times> world" where
  "Kill_wait os cmd p w =
     (let w1 = (if Wait_done os cmd then w else emit (SentKill p) w)
      in (None, w1\<lparr>deployer := (deployer w1)\<lparr>currentCmd := None, isRunning := False\<rparr>\<rparr>))"

definition Kill :: "sys \<Rightarrow> world \<Rightarrow> error option \<times> world" where
  "Kill os w =
     (case currentCmd (deployer w) of
        None \<Rightarrow> (None, w)
      | Some cmd \<Rightarrow>
          (case cmd_Process cmd of
             None \<Rightarrow> (None, w)
           | Some p \<Rightarrow>
               (case Signal_SIGTERM os p of
                  None \<Rightarrow> Kill_wait os cmd p (emit (SentSIGTERM p) w)
                | Some err \<Rightarrow>
                    (case Process_Kill os p of
                       Some err2 \<Rightarrow>
                         (Some (''failed to kill process: '' @ err2),
                          emit (SentKill p) (emit (SentSIGTERM p) w))
                     | None \<Rightarrow>
                         Kill_wait os cmd p (emit (SentKill p) (emit (SentSIGTERM p) w))))))"

text \<open>
  \<open>filepath.Walk\<close> calls the function once per visit, in order, and stops at the first
  error the function returns.
\<close>

fun Walk :: "visit list \<Rightarrow> (visit \<Rightarrow> 's \<Rightarrow> error option \<times> 's) \<Rightarrow> 's \<Rightarrow> error option \<times> 's" where
  "Walk [] fn s = (None, s)"
| "Walk (v # vs) fn s =
     (case fn v s of
        (Some err, s') \<Rightarrow> (Some err, s')
      | (None, s') \<Rightarrow> Walk vs fn s')"

text \<open>The permission bits \<open>0644\<close> and \<open>0755\<close> are octal in the source.\<close>

definition perm_0644 :: FileMode where
  "perm_0644 = 6 * 64 + 4 * 8 + 4"

definition perm_0755 :: FileMode where
  "perm_0755 = 7 * 64 + 5 * 8 + 5"

definition copyFile :: "sys \<Rightarrow> string \<Rightarrow> string \<Rightarrow> world \<Rightarrow> error option \<times> world" where
  "copyFile os src dst w =
     (case ReadFile os src of
        Inl err \<Rightarrow> (Some err, w)
      | Inr data \<Rightarrow> (WriteFile os dst data perm_0644, emit (CalledWriteFile dst data perm_0644) w))"

definition copyDir_fn :: "sys \<Rightarrow> string \<Rightarrow> string \<Rightarrow> visit \<Rightarrow> world \<Rightarrow> error option \<times> world" where
  "copyDir_fn os src dst v w =
     (case v_err v of
        Some err \<Rightarrow> (Some err, w)
      | None \<Rightarrow>
          (case Rel os src (v_path v) of
             Inl err \<Rightarrow> (Some err, w)
           | Inr relPath \<Rightarrow>
               (let dstPath = Join [dst, relPath]
                in if info_IsDir (v_info v)
                   then (MkdirAll os dstPath (info_Mode (v_info v)),
                         emit (CalledMkdirAll dstPath (info_Mode (v_info v))) w)
                   else copyFile os (v_path v) dstPath w)))"

definition copyDir :: "sys \<Rightarrow> string \<Rightarrow> string \<Rightarrow> world \<Rightarrow> error option \<times> world" where
  "copyDir os src dst w =
     (case MkdirAll os dst perm_0755 of
        Some err \<Rightarrow> (Some err, emit (CalledMkdirAll dst perm_0755) w)
      | None \<Rightarrow>
          Walk (Walk_visits os src) (copyDir_fn os src dst) (emit (CalledMkdirAll dst perm_0755) w))"

text \<open>
  \<open>exec.Command\<close> puts the name in front of the arguments and, when the name is a single
  path element, looks it up: a path found replaces the name, an error of the lookup is kept
  in the command. \<open>Cmd.Start\<close> returns that error, or an error of its own when there is no
  path at all, before anything is started.
\<close>

definition Command :: "sys \<Rightarrow> string \<Rightarrow> string list \<Rightarrow> Cmd" where
  "Command os name arg =
     (let cmd = \<lparr>cmd_Path = name, cmd_Args = name # arg, cmd_Dir = [], cmd_Env = [],
                 cmd_Process = None, cmd_Err = None\<rparr>
      in if Base name = name
         then (case LookPath os name of
                 (lp, err) \<Rightarrow>
                   (if lp \<noteq> [] then cmd\<lparr>cmd_Path := lp\<rparr> else cmd)\<lparr>cmd_Err := err\<rparr>)
         else cmd)"

definition Cmd_Start :: "sys \<Rightarrow> Cmd \<Rightarrow> error + Process" where
  "Cmd_Start os cmd =
     (if cmd_Process cmd \<noteq> None then Inl ''exec: already started''
      else if cmd_Path cmd = [] \<and> cmd_Err cmd = None then Inl ''exec: no command''
      else (case cmd_Err cmd of
              Some err \<Rightarrow> Inl err
            | None \<Rightarrow> Start os cmd))"

text \<open>
  \<open>Deploy\<close>: copy, build the environment and the command (\<open>deploy_cmd\<close>), start it, and only
  then record the command and set the flag.
\<close>

definition deploy_cmd :: "sys \<Rightarrow> Deployer \<Rightarrow> Cmd" where
  "deploy_cmd os d =
     (let env = Environ os @ EnvironmentVariables (Config d)
                @ [''DISPLAY=:0'']
                @ [''XAUTHORITY=/home/'' @ Getenv os ''USER'' @ ''/.Xauthority''];
          cmd = Command os (Executable (Config d)) (Args (Config d))
      in cmd\<lparr>cmd_Dir := DeployLocation (Config d), cmd_Env := env\<rparr>)"

definition Deploy :: "sys \<Rightarrow> world \<Rightarrow> error option \<times> world" where
  "Deploy os w =
     (let d = deployer w;
          sourcePath = Join [MountLocation d, SourceLocation (Config d)];
          deployPath = DeployLocation (Config d)
      in case copyDir os sourcePath deployPath w of
           (Some err, w1) \<Rightarrow> (Some (''failed to copy source: '' @ err), w1)
         | (None, w1) \<Rightarrow>
             (let cmd = deploy_cmd os d;
                  w2 = emit (CalledStart cmd) w1
              in case Cmd_Start os cmd of
                   Inl err \<Rightarrow> (Some (''failed to start executable: '' @ err), w2)
                 | Inr p \<Rightarrow>
                     (None, w2\<lparr>deployer := (deployer w2)
                                  \<lparr>currentCmd := Some (cmd\<lparr>cmd_Process := Some p\<rparr>),
                                   isRunning := True\<rparr>\<rparr>)))"

text \<open>The goroutine that \<open>Deploy\<close> starts: when the child exits it clears the flag.\<close>

definition monitor_exit :: "world \<Rightarrow> world" where
  "monitor_exit w = w\<lparr>deployer := (deployer w)\<lparr>isRunning := False\<rparr>\<rparr>"

text \<open>\<open>Redeploy\<close>: an error of \<open>Kill\<close> is only logged.\<close>

definition Redeploy :: "sys \<Rightarrow> world \<Rightarrow> error option \<times> world" where
  "Redeploy os w =
     (let w1 = snd (Kill os w);
          w2 = emit (Slept 500) w1
      in Deploy os w2)"

definition IsRunning :: "world \<Rightarrow> bool" where
  "IsRunning w = isRunning (deployer w)"

section \<open>The file watcher\<close>

record FileChangeEvent =
  RelPath :: string
  FullPath :: string
  ChangeType :: string
  Size :: "64 word"
  ModTime :: Time

record FileState =
  st_ModTime :: Time
  st_Size :: "64 word"

text \<open>A handler is a function of the event that changes the state of whoever subscribed.\<close>

type_synonym 'w FileChangeHandler = "FileChangeEvent \<Rightarrow> 'w \<Rightarrow> 'w"

record 'w FileWatcher =
  Path :: string
  Interval :: int
  subscribers :: "'w FileChangeHandler list"

definition NewFileWatcher :: "string \<Rightarrow> int \<Rightarrow> 'w FileWatcher" where
  "NewFileWatcher path interval = \<lparr>Path = path, Interval = interval, subscribers = []\<rparr>"

definition SetPath :: "'w FileWatcher \<Rightarrow> string \<Rightarrow> 'w FileWatcher" where
  "SetPath fw path = fw\<lparr>Path := path\<rparr>"

definition Subscribe :: "'w FileWatcher \<Rightarrow> 'w FileChangeHandler \<Rightarrow> 'w FileWatcher" where
  "Subscribe fw handler = fw\<lparr>subscribers := subscribers fw @ [handler]\<rparr>"

definition Notify :: "'w FileWatcher \<Rightarrow> FileChangeEvent \<Rightarrow> 'w \<Rightarrow> 'w" where
  "Notify fw event w = fold (\<lambda>handler. handler event) (subscribers fw) w"

text \<open>\<open>Handle\<close> is the handler the deployer subscribes.\<close>

definition Handle :: "sys \<Rightarrow> FileChangeEvent \<Rightarrow> world \<Rightarrow> world" where
  "Handle os event w =
     (if RelPath event = CONFIG_ID
      then snd (Redeploy os (w\<lparr>deployer := reloadConfig os (deployer w)\<rparr>))
      else if isSourceFile (deployer w) (RelPath event)
      then snd (Redeploy os w)
      else w)"

text \<open>
  The function \<open>scanFiles\<close> gives to \<open>filepath.Walk\<close>. It always returns nil. Its state is
  the map \<open>currentFiles\<close> it fills and the state of the subscribers it notifies.
\<close>

definition scan_fn ::
  "'w FileWatcher \<Rightarrow> sys \<Rightarrow> string \<Rightarrow> (string \<rightharpoonup> FileState) \<Rightarrow> bool \<Rightarrow> visit
   \<Rightarrow> (string \<rightharpoonup> FileState) \<times> 'w \<Rightarrow> error option \<times> (string \<rightharpoonup> FileState) \<times> 'w" where
  "scan_fn fw os sharePath knownFiles isInitial v s =
     (case s of (currentFiles, w) \<Rightarrow>
        (case v_err v of
           Some err \<Rightarrow> (None, currentFiles, w)
         | None \<Rightarrow>
             if info_IsDir (v_info v) then (None, currentFiles, w)
             else
               (case Rel os sharePath (v_path v) of
                  Inl err \<Rightarrow> (None, currentFiles, w)
                | Inr relPath \<Rightarrow>
                    (let state = \<lparr>st_ModTime = info_ModTime (v_info v),
                                   st_Size = info_Size (v_info v)\<rparr>;
                         currentFiles' = currentFiles(relPath \<mapsto> state)
                     in case knownFiles relPath of
                          Some oldState \<Rightarrow>
                            if st_ModTime oldState \<noteq> st_ModTime state
                               \<or> st_Size oldState \<noteq> st_Size state
                            then (None, currentFiles',
                                  Notify fw \<lparr>RelPath = relPath,
                                             FullPath = v_path v,
                                             ChangeType = ''modified'',
                                             Size = info_Size (v_info v),
                                             ModTime = info_ModTime (v_info v)\<rparr> w)
                            else (None, currentFiles', w)
                        | None \<Rightarrow>
                            if \<not> isInitial
                            then (None, currentFiles',
                                  Notify fw \<lparr>RelPath = relPath,
                                             FullPath = v_path v,
                                             ChangeType = ''created'',
                                             Size = info_Size (v_info v),
                                             ModTime = info_ModTime (v_info v)\<rparr> w)
                            else (None, currentFiles', w)))))"

text \<open>
  The three loops over maps at the end of \<open>scanFiles\<close>, one step each. A deleted event
  has only its path and its type set; the other fields are the zero values.
\<close>

definition deleted_event :: "string \<Rightarrow> FileChangeEvent" where
  "deleted_event relPath =
     \<lparr>RelPath = relPath, FullPath = [], ChangeType = ''deleted'', Size = 0, ModTime = 0\<rparr>"

definition deleted_step ::
  "'w FileWatcher \<Rightarrow> (string \<rightharpoonup> FileState) \<Rightarrow> string \<Rightarrow> 'w \<Rightarrow> 'w" where
  "deleted_step fw currentFiles relPath w =
     (case currentFiles relPath of
        None \<Rightarrow> Notify fw (deleted_event relPath) w
      | Some st \<Rightarrow> w)"

definition update_step ::
  "(string \<rightharpoonup> FileState) \<Rightarrow> string \<Rightarrow> (string \<rightharpoonup> FileState) \<Rightarrow> (string \<rightharpoonup> FileState)" where
  "update_step currentFiles k knownFiles =
     (case currentFiles k of
        Some v \<Rightarrow> knownFiles(k \<mapsto> v)
      | None \<Rightarrow> knownFiles)"

definition prune_step ::
  "(string \<rightharpoonup> FileState) \<Rightarrow> string \<Rightarrow> (string \<rightharpoonup> FileState) \<Rightarrow> (string \<rightharpoonup> FileState)" where
  "prune_step currentFiles k knownFiles =
     (case currentFiles k of
        None \<Rightarrow> knownFiles(k := None)
      | Some st \<Rightarrow> knownFiles)"

definition scanFiles ::
  "'w FileWatcher \<Rightarrow> sys \<Rightarrow> string \<Rightarrow> (string \<rightharpoonup> FileState) \<Rightarrow> bool \<Rightarrow> 'w
   \<Rightarrow> (string \<rightharpoonup> FileState) \<times> 'w" where
  "scanFiles fw os sharePath knownFiles isInitial w =
     (case Walk (Walk_visits os sharePath) (scan_fn fw os sharePath knownFiles isInitial)
             (Map.empty, w) of
        (err, currentFiles, w1) \<Rightarrow>
          (let w2 = (if \<not> isInitial
                     then fold (deleted_step fw currentFiles) (range_known os) w1
                     else w1);
               known1 = fold (update_step currentFiles) (range_current os) knownFiles;
               known2 = fold (prune_step currentFiles) (range_merged os) known1
           in (known2, w2)))"

text \<open>
  \<open>pollloop\<close> creates the ticker, which panics when the interval is not positive, scans
  once with \<open>isInitial = true\<close> and an empty map, then once per tick. The loop has no exit;
  the model runs it for the ticks it is given, each with the answers the system gives
  during that scan. \<open>Inl\<close> is the panic.
\<close>

definition pollloop ::
  "'w FileWatcher \<Rightarrow> sys \<Rightarrow> sys list \<Rightarrow> 'w \<Rightarrow> string + (string \<rightharpoonup> FileState) \<times> 'w" where
  "pollloop fw os0 ticks w =
     (if Interval fw \<le> 0 then Inl ''non-positive interval for NewTicker''
      else Inr (fold (\<lambda>os s. scanFiles fw os (Path fw) (fst s) False (snd s)) ticks
                  (scanFiles fw os0 (Path fw) Map.empty True w)))"

text \<open>
  Observing a scan: a subscriber that appends each event it is given to a list. The map the
  walk has built and the list of events a scan delivers are read off a watcher whose only
  subscriber is this one.
\<close>

definition record_event :: "FileChangeEvent list FileChangeHandler" where
  "record_event event log = log @ [event]"

definition recorder :: "FileChangeEvent list FileWatcher" where
  "recorder = Subscribe (NewFileWatcher [] 0) record_event"

definition walked ::
  "sys \<Rightarrow> string \<Rightarrow> (string \<rightharpoonup> FileState) \<Rightarrow> bool
   \<Rightarrow> (string \<rightharpoonup> FileState) \<times> FileChangeEvent list" where
  "walked os sharePath knownFiles isInitial =
     snd (Walk (Walk_visits os sharePath) (scan_fn recorder os sharePath knownFiles isInitial)
            (Map.empty, []))"

definition current_snapshot :: "sys \<Rightarrow> string \<Rightarrow> (string \<rightharpoonup> FileState)" where
  "current_snapshot os sharePath = fst (walked os sharePath Map.empty True)"

definition walk_events ::
  "sys \<Rightarrow> string \<Rightarrow> (string \<rightharpoonup> FileState) \<Rightarrow> bool \<Rightarrow> FileChangeEvent list" where
  "walk_events os sharePath knownFiles isInitial = snd (walked os sharePath knownFiles isInitial)"

definition scan_events ::
  "sys \<Rightarrow> string \<Rightarrow> (string \<rightharpoonup> FileState) \<Rightarrow> bool \<Rightarrow> FileChangeEvent list" where
  "scan_events os sharePath knownFiles isInitial =
     snd (scanFiles recorder os sharePath knownFiles isInitial [])"

text \<open>
  The relative paths of the files a walk records, one per visit of a file that has no
  error and a relative path. A walk meets every file once, so these are distinct.
\<close>

definition visit_rel :: "sys \<Rightarrow> string \<Rightarrow> visit \<Rightarrow> (string \<times> visit) option" where
  "visit_rel os sharePath v =
     (if v_err v = None \<and> \<not> info_IsDir (v_info v)
      then (case Rel os sharePath (v_path v) of
              Inl err \<Rightarrow> None
            | Inr relPath \<Rightarrow> Some (relPath, v))
      else None)"

definition scanned :: "sys \<Rightarrow> string \<Rightarrow> (string \<times> visit) list" where
  "scanned os sharePath = List.map_filter (visit_rel os sharePath) (Walk_visits os sharePath)"

text \<open>
  The state the walk stores for a file, and the event, if any, it sends for it, as
  functions of the visit; the lemmas \<open>scan_fn_step\<close> and \<open>Walk_scan\<close> below show that they
  are what \<open>scan_fn\<close> computes.
\<close>

definition state_of :: "visit \<Rightarrow> FileState" where
  "state_of v = \<lparr>st_ModTime = info_ModTime (v_info v), st_Size = info_Size (v_info v)\<rparr>"

definition visit_event ::
  "(string \<rightharpoonup> FileState) \<Rightarrow> bool \<Rightarrow> string \<times> visit \<Rightarrow> FileChangeEvent option" where
  "visit_event knownFiles isInitial rv =
     (case rv of (relPath, v) \<Rightarrow>
        (let event = (\<lambda>t. \<lparr>RelPath = relPath, FullPath = v_path v, ChangeType = t,
                              Size = info_Size (v_info v), ModTime = info_ModTime (v_info v)\<rparr>)
         in case knownFiles relPath of
              Some oldState \<Rightarrow>
                if st_ModTime oldState \<noteq> info_ModTime (v_info v)
                   \<or> st_Size oldState \<noteq> info_Size (v_info v)
                then Some (event ''modified'')
                else None
            | None \<Rightarrow> if \<not> isInitial then Some (event ''created'') else None))"

definition store :: "string \<times> visit \<Rightarrow> (string \<rightharpoonup> FileState) \<Rightarrow> (string \<rightharpoonup> FileState)" where
  "store rv currentFiles = currentFiles(fst rv \<mapsto> state_of (snd rv))"

text \<open>A \<open>range\<close> over a map yields every key of the map once.\<close>

definition range_of :: "(string \<rightharpoonup> FileState) \<Rightarrow> string list \<Rightarrow> bool" where
  "range_of m ks = (distinct ks \<and> set ks = dom m)"

text \<open>Whether the deployer holds a command with a process.\<close>

definition has_process :: "Deployer \<Rightarrow> bool" where
  "has_process d =
     (case currentCmd d of
        None \<Rightarrow> False
      | Some cmd \<Rightarrow> cmd_Process cmd \<noteq> None)"

text \<open>
  The test by path elements that \<open>isSourceFile\<close> is compared with: the elements of the
  cleaned directory are the first elements of the cleaned path.
\<close>

definition inside_dir :: "string \<Rightarrow> string \<Rightarrow> bool" where
  "inside_dir dir path = prefix (split_sep (Clean dir)) (split_sep (Clean path))"

text \<open>
  Whether the effects hold the call that copies a visit: \<open>MkdirAll\<close> with the mode of the
  directory, or \<open>WriteFile\<close> of the data read, with mode \<open>0644\<close>.
\<close>

definition visit_copied :: "sys \<Rightarrow> string \<Rightarrow> string \<Rightarrow> effect list \<Rightarrow> visit \<Rightarrow> bool" where
  "visit_copied os src dst new v =
     (case Rel os src (v_path v) of
        Inl err \<Rightarrow> False
      | Inr rel \<Rightarrow>
          if info_IsDir (v_info v)
          then CalledMkdirAll (Join [dst, rel]) (info_Mode (v_info v)) \<in> set new
          else (case ReadFile os (v_path v) of
                  Inl err \<Rightarrow> False
                | Inr data \<Rightarrow> CalledWriteFile (Join [dst, rel]) data perm_0644 \<in> set new))"

section \<open>The destination as a file system\<close>












definition copy_calls :: "sys \<Rightarrow> string \<Rightarrow> string \<Rightarrow> world \<Rightarrow> effect list" where
  "copy_calls os src dst w = drop (length (effects w)) (effects (snd (copyDir os src dst w)))"




section \<open>Concrete inputs\<close>

text \<open>
  A share mounted at \<open>/mnt/agent\<close> whose source directory holds one executable script, a
  system on which every call succeeds, and one on which the child has already gone, so that
  neither signal can be delivered.
\<close>

definition cfg_example :: DeployConfig where
  "cfg_example =
     \<lparr>DeployLocation = ''/opt/app'',
      Executable = ''./run.sh'',
      Args = [''--fast''],
      SourceLocation = ''src'',
      EnvironmentVariables = [''MODE=prod'']\<rparr>"

definition cfg_reloaded :: DeployConfig where
  "cfg_reloaded = cfg_example\<lparr>Executable := ''./run2.sh''\<rparr>"

definition rel_example :: "string \<Rightarrow> string \<Rightarrow> error + string" where
  "rel_example base path =
     (if path = base then Inr ''.''
      else if prefix (base @ ''/'') path then Inr (drop (length base + 1) path)
      else Inl ''Rel: can't make relative'')"

definition dir_info :: FileInfo where
  "dir_info = \<lparr>info_IsDir = True, info_Mode = 2147484141, info_ModTime = 1000, info_Size = 4096\<rparr>"

definition script_info :: FileInfo where
  "script_info = \<lparr>info_IsDir = False, info_Mode = 493, info_ModTime = 1000, info_Size = 100\<rparr>"

definition sys_example :: sys where
  "sys_example =
     \<lparr>ReadFile = (\<lambda>p. if p = ''/mnt/agent/deploy.json'' then Inr ''{}''
                      else if p = ''/mnt/agent/src/run.sh'' then Inr ''echo''
                      else Inl ''no such file''),
      Unmarshal = (\<lambda>data. Inr cfg_reloaded),
      Signal_SIGTERM = (\<lambda>p. None),
      Process_Kill = (\<lambda>p. None),
      Wait_done = (\<lambda>cmd. True),
      MkdirAll = (\<lambda>p m. None),
      WriteFile = (\<lambda>p data m. None),
      Walk_visits = (\<lambda>p. if p = ''/mnt/agent/src''
                          then [\<lparr>v_path = ''/mnt/agent/src'', v_info = dir_info, v_err = None\<rparr>,
                                \<lparr>v_path = ''/mnt/agent/src/run.sh'', v_info = script_info, v_err = None\<rparr>]
                          else []),
      Rel = rel_example,
      Environ = [''PATH=/bin''],
      Getenv = (\<lambda>k. ''root''),
      LookPath = (\<lambda>name. if name = ''sleep'' then (''/bin/sleep'', None)
                         else ([], Some ''executable file not found in $PATH'')),
      Start = (\<lambda>cmd. Inr \<lparr>Pid = 42\<rparr>),
      range_known = [],
      range_current = [],
      range_merged = []\<rparr>"

definition sys_gone :: sys where
  "sys_gone = sys_example
     \<lparr>Signal_SIGTERM := (\<lambda>p. Some ''os: process already finished''),
      Process_Kill := (\<lambda>p. Some ''os: process already finished'')\<rparr>"

definition world_idle :: world where
  "world_idle =
     \<lparr>deployer = \<lparr>MountLocation = ''/mnt/agent'', Config = cfg_example,
                   currentCmd = None, isRunning = False\<rparr>,
      effects = []\<rparr>"

definition world_running :: world where
  "world_running =
     \<lparr>deployer = \<lparr>MountLocation = ''/mnt/agent'', Config = cfg_example,
                   currentCmd = Some ((deploy_cmd sys_example (deployer world_idle))
                                        \<lparr>cmd_Process := Some \<lparr>Pid = 41\<rparr>\<rparr>),
                   isRunning = True\<rparr>,
      effects = []\<rparr>"

definition world_bare :: world where
  "world_bare = world_idle
     \<lparr>deployer := (deployer world_idle)
        \<lparr>Config := cfg_example\<lparr>Executable := ''nosuch''\<rparr>\<rparr>\<rparr>"

definition sys_unreadable :: sys where
  "sys_unreadable = sys_example\<lparr>ReadFile := (\<lambda>p. Inl ''no such file'')\<rparr>"

definition sys_nostart :: sys where
  "sys_nostart = sys_example\<lparr>Start := (\<lambda>cmd. Inl ''exec: not found'')\<rparr>"

definition event_of :: "string \<Rightarrow> FileChangeEvent" where
  "event_of rel =
     \<lparr>RelPath = rel, FullPath = ''/mnt/agent/'' @ rel, ChangeType = ''modified'',
      Size = 100, ModTime = 2000\<rparr>"

text \<open>
  A scan of the share after \<open>a.txt\<close> has grown from 100 to 150 bytes, \<open>b.txt\<close> has appeared and
  \<open>gone.txt\<close> has been removed, with some order for each of the three loops over maps.
\<close>

definition a_info :: FileInfo where
  "a_info = \<lparr>info_IsDir = False, info_Mode = 420, info_ModTime = 2000, info_Size = 150\<rparr>"

definition b_info :: FileInfo where
  "b_info = \<lparr>info_IsDir = False, info_Mode = 420, info_ModTime = 1500, info_Size = 7\<rparr>"

definition sys_scan :: sys where
  "sys_scan = sys_example
     \<lparr>Walk_visits := (\<lambda>p. if p = ''/mnt/agent''
                          then [\<lparr>v_path = ''/mnt/agent'', v_info = dir_info, v_err = None\<rparr>,
                                \<lparr>v_path = ''/mnt/agent/a.txt'', v_info = a_info, v_err = None\<rparr>,
                                \<lparr>v_path = ''/mnt/agent/b.txt'', v_info = b_info, v_err = None\<rparr>]
                          else []),
      range_known := [''gone.txt'', ''a.txt''],
      range_current := [''b.txt'', ''a.txt''],
      range_merged := [''a.txt'', ''gone.txt'', ''b.txt'']\<rparr>"

definition known_example :: "string \<rightharpoonup> FileState" where
  "known_example =
     [''a.txt'' \<mapsto> \<lparr>st_ModTime = 1000, st_Size = 100\<rparr>,
      ''gone.txt'' \<mapsto> \<lparr>st_ModTime = 900, st_Size = 5\<rparr>]"

text \<open>
  The first scan of the same share, by a watcher with one subscriber and an interval of
  five seconds.
\<close>

definition sys_initial :: sys where
  "sys_initial = sys_scan
     \<lparr>range_known := [],
      range_current := [''b.txt'', ''a.txt''],
      range_merged := [''a.txt'', ''b.txt'']\<rparr>"

definition watcher_example :: "FileChangeEvent list FileWatcher" where
  "watcher_example = Subscribe (NewFileWatcher ''/mnt/agent'' 5000000000) record_event"







section \<open>Properties of the deployer\<close>

lemma LoadDeployConfig_no_panic: "LoadDeployConfig os share False \<noteq> Inl msg"
  by (simp add: LoadDeployConfig_def Let_def split: sum.splits)

lemma deployer_emit: "deployer (emit e w) = deployer w"
  by (simp add: emit_def)

lemma effects_emit: "effects (emit e w) = effects w @ [e]"
  by (simp add: emit_def)

lemma Kill_wait_result:
  "Kill_wait os cmd p w =
     (None, \<lparr>deployer = (deployer w)\<lparr>currentCmd := None, isRunning := False\<rparr>,
             effects = effects w @ (if Wait_done os cmd then [] else [SentKill p])\<rparr>)"
  by (simp add: Kill_wait_def emit_def)

text \<open>
  C8: on a deployer that holds no process (no command, or a command without a process),
  \<open>Kill\<close> returns nil and changes nothing: neither the command, nor the flag, nor the
  outside world.
\<close>

theorem Kill_idle_noop:
  assumes "\<not> has_process (deployer w)"
  shows "Kill os w = (None, w)"
proof (cases "currentCmd (deployer w)")
  case None
  then show ?thesis by (simp add: Kill_def)
next
  case (Some cmd)
  with assms have "cmd_Process cmd = None"
    by (simp add: has_process_def)
  with Some show ?thesis by (simp add: Kill_def)
qed

theorem Kill_idle_noop_witness:
  "\<not> has_process (deployer world_idle) \<and> Kill sys_example world_idle = (None, world_idle)"
proof -
  have h: "\<not> has_process (deployer world_idle)"
    by (simp add: has_process_def world_idle_def)
  from Kill_idle_noop [OF h, of sys_example] h show ?thesis by simp
qed

text \<open>
  C1, as stated, fails: when SIGTERM cannot be delivered and the forced kill fails as well,
  \<open>Kill\<close> returns its error before the two assignments, and the command and the flag stay.
\<close>

theorem Kill_clears_counterexample:
  "has_process (deployer world_running)
   \<and> \<not> (currentCmd (deployer (snd (Kill sys_gone world_running))) = None
        \<and> \<not> isRunning (deployer (snd (Kill sys_gone world_running))))"
  by (simp add: has_process_def world_running_def Kill_def sys_gone_def sys_example_def
      deployer_emit)

text \<open>
  C1, amended: on a deployer that holds a process, \<open>Kill\<close> returns nil exactly when SIGTERM
  or, failing that, the forced kill is delivered; whenever it returns nil (the child exits
  within the grace period, or is killed after it, or SIGTERM fails and the forced kill
  succeeds) the command is nil and the flag false; when it returns an error the deployer
  is as it was.
\<close>

theorem Kill_clears_on_success:
  assumes "currentCmd (deployer w) = Some cmd" and "cmd_Process cmd = Some p"
  shows "(fst (Kill os w) = None
            \<longleftrightarrow> (Signal_SIGTERM os p = None \<or> Process_Kill os p = None))
         \<and> (fst (Kill os w) = None
            \<longrightarrow> currentCmd (deployer (snd (Kill os w))) = None
                \<and> \<not> isRunning (deployer (snd (Kill os w))))
         \<and> (fst (Kill os w) \<noteq> None \<longrightarrow> deployer (snd (Kill os w)) = deployer w)"
  using assms
  by (cases "Signal_SIGTERM os p"; cases "Process_Kill os p")
     (simp_all add: Kill_def Kill_wait_result deployer_emit)

theorem Kill_clears_on_success_witness:
  "fst (Kill sys_example world_running) = None
   \<and> currentCmd (deployer (snd (Kill sys_example world_running))) = None
   \<and> \<not> isRunning (deployer (snd (Kill sys_example world_running)))
   \<and> fst (Kill sys_gone world_running) \<noteq> None
   \<and> deployer (snd (Kill sys_gone world_running)) = deployer world_running"
proof -
  have c: "currentCmd (deployer world_running)
             = Some ((deploy_cmd sys_example (deployer world_idle))
                       \<lparr>cmd_Process := Some \<lparr>Pid = 41\<rparr>\<rparr>)"
    by (simp add: world_running_def)
  have p: "cmd_Process ((deploy_cmd sys_example (deployer world_idle))
                          \<lparr>cmd_Process := Some \<lparr>Pid = 41\<rparr>\<rparr>)
             = Some \<lparr>Pid = 41\<rparr>"
    by simp
  have s: "Signal_SIGTERM sys_example \<lparr>Pid = 41\<rparr> = None"
    by (simp add: sys_example_def)
  have g: "Signal_SIGTERM sys_gone \<lparr>Pid = 41\<rparr> \<noteq> None"
      "Process_Kill sys_gone \<lparr>Pid = 41\<rparr> \<noteq> None"
    by (simp_all add: sys_gone_def)
  from Kill_clears_on_success [OF c p, of sys_example] s
  have 1: "fst (Kill sys_example world_running) = None
     \<and> currentCmd (deployer (snd (Kill sys_example world_running))) = None
     \<and> \<not> isRunning (deployer (snd (Kill sys_example world_running)))"
    by simp
  from Kill_clears_on_success [OF c p, of sys_gone] g
  have 2: "fst (Kill sys_gone world_running) \<noteq> None
     \<and> deployer (snd (Kill sys_gone world_running)) = deployer world_running"
    by blast
  from 1 2 show ?thesis by simp
qed

section \<open>Copying and deploying\<close>

lemma copyFile_deployer: "deployer (snd (copyFile os src dst w)) = deployer w"
  by (simp add: copyFile_def deployer_emit split: sum.splits)

lemma copyDir_fn_deployer: "deployer (snd (copyDir_fn os src dst v w)) = deployer w"
  by (simp add: copyDir_fn_def Let_def deployer_emit copyFile_deployer
      split: option.splits sum.splits)

lemma Walk_copy_deployer:
  "deployer (snd (Walk vs (copyDir_fn os src dst) w)) = deployer w"
proof (induction vs arbitrary: w)
  case Nil
  show ?case by simp
next
  case (Cons v vs)
  obtain r w1 where step: "copyDir_fn os src dst v w = (r, w1)"
    by (cases "copyDir_fn os src dst v w")
  then have "deployer w1 = deployer w"
    using copyDir_fn_deployer [of os src dst v w] by simp
  with step Cons.IH [of w1] show ?case
    by (cases r) simp_all
qed

lemma copyDir_deployer: "deployer (snd (copyDir os src dst w)) = deployer w"
  by (simp add: copyDir_def deployer_emit Walk_copy_deployer split: option.splits)

lemma visit_copied_mono:
  "visit_copied os src dst new v \<Longrightarrow> set new \<subseteq> set new' \<Longrightarrow> visit_copied os src dst new' v"
  by (auto simp: visit_copied_def split: sum.splits if_splits)

text \<open>What one call of the walk function adds to the effects.\<close>

lemma copyDir_fn_effects:
  "\<exists>new. effects (snd (copyDir_fn os src dst v w)) = effects w @ new
     \<and> (\<forall>p d m. CalledWriteFile p d m \<in> set new \<longrightarrow> m = perm_0644)
     \<and> (\<forall>p m. CalledMkdirAll p m \<in> set new \<longrightarrow> info_IsDir (v_info v) \<and> m = info_Mode (v_info v))
     \<and> (\<forall>c. CalledStart c \<notin> set new)
     \<and> (fst (copyDir_fn os src dst v w) = None \<longrightarrow> visit_copied os src dst new v)"
  by (auto simp: copyDir_fn_def copyFile_def Let_def effects_emit visit_copied_def
      split: option.splits sum.splits)

lemma Walk_copy_effects:
  "\<exists>new. effects (snd (Walk vs (copyDir_fn os src dst) w)) = effects w @ new
     \<and> (\<forall>p d m. CalledWriteFile p d m \<in> set new \<longrightarrow> m = perm_0644)
     \<and> (\<forall>p m. CalledMkdirAll p m \<in> set new \<longrightarrow>
           (\<exists>v \<in> set vs. info_IsDir (v_info v) \<and> m = info_Mode (v_info v)))
     \<and> (\<forall>c. CalledStart c \<notin> set new)
     \<and> (fst (Walk vs (copyDir_fn os src dst) w) = None \<longrightarrow>
          (\<forall>v \<in> set vs. visit_copied os src dst new v))"
proof (induction vs arbitrary: w)
  case Nil
  show ?case by simp
next
  case (Cons v vs)
  obtain r w1 where step: "copyDir_fn os src dst v w = (r, w1)"
    by (cases "copyDir_fn os src dst v w")
  from copyDir_fn_effects [of os src dst v w] step
  obtain n1 where n1: "effects w1 = effects w @ n1"
      "\<forall>p d m. CalledWriteFile p d m \<in> set n1 \<longrightarrow> m = perm_0644"
      "\<forall>p m. CalledMkdirAll p m \<in> set n1 \<longrightarrow> info_IsDir (v_info v) \<and> m = info_Mode (v_info v)"
      "\<forall>c. CalledStart c \<notin> set n1"
      "r = None \<longrightarrow> visit_copied os src dst n1 v"
    by auto
  show ?case
  proof (cases r)
    case (Some err)
    with step n1 show ?thesis
      by (intro exI [of _ n1]) auto
  next
    case None
    from Cons.IH [of w1]
    obtain n2 where n2: "effects (snd (Walk vs (copyDir_fn os src dst) w1)) = effects w1 @ n2"
      "\<forall>p d m. CalledWriteFile p d m \<in> set n2 \<longrightarrow> m = perm_0644"
      "\<forall>p m. CalledMkdirAll p m \<in> set n2 \<longrightarrow>
           (\<exists>v \<in> set vs. info_IsDir (v_info v) \<and> m = info_Mode (v_info v))"
      "\<forall>c. CalledStart c \<notin> set n2"
      "fst (Walk vs (copyDir_fn os src dst) w1) = None \<longrightarrow>
          (\<forall>v \<in> set vs. visit_copied os src dst n2 v)"
      by (elim exE conjE) (rule that)
    have w: "Walk (v # vs) (copyDir_fn os src dst) w = Walk vs (copyDir_fn os src dst) w1"
      using step None by simp
    have e: "effects (snd (Walk (v # vs) (copyDir_fn os src dst) w)) = effects w @ (n1 @ n2)"
      using w n1(1) n2(1) by simp
    have a: "\<forall>p d m. CalledWriteFile p d m \<in> set (n1 @ n2) \<longrightarrow> m = perm_0644"
      using n1(2) n2(2) by auto
    have b: "\<forall>p m. CalledMkdirAll p m \<in> set (n1 @ n2) \<longrightarrow>
           (\<exists>u \<in> set (v # vs). info_IsDir (v_info u) \<and> m = info_Mode (v_info u))"
      using n1(3) n2(3) by auto
    have c: "\<forall>c. CalledStart c \<notin> set (n1 @ n2)"
      using n1(4) n2(4) by auto
    have d: "fst (Walk (v # vs) (copyDir_fn os src dst) w) = None \<longrightarrow>
          (\<forall>u \<in> set (v # vs). visit_copied os src dst (n1 @ n2) u)"
    proof (intro impI ballI)
      fix u
      assume ok: "fst (Walk (v # vs) (copyDir_fn os src dst) w) = None" and u: "u \<in> set (v # vs)"
      show "visit_copied os src dst (n1 @ n2) u"
      proof (cases "u = v")
        case True
        with n1(5) None show ?thesis
          by (auto intro: visit_copied_mono)
      next
        case False
        with u have "u \<in> set vs" by simp
        moreover from ok w have "fst (Walk vs (copyDir_fn os src dst) w1) = None" by simp
        ultimately have "visit_copied os src dst n2 u" using n2(5) by simp
        then show ?thesis
          by (rule visit_copied_mono) simp
      qed
    qed
    show ?thesis
      by (intro exI [of _ "n1 @ n2"] conjI) (rule e a b c d)+
  qed
qed


lemma copyDir_no_start:
  "CalledStart c \<in> set (effects (snd (copyDir os src dst w))) \<Longrightarrow> CalledStart c \<in> set (effects w)"
proof (cases "MkdirAll os dst perm_0755")
  case (Some err)
  assume "CalledStart c \<in> set (effects (snd (copyDir os src dst w)))"
  with Some show ?thesis
    by (simp add: copyDir_def effects_emit)
next
  case None
  assume a: "CalledStart c \<in> set (effects (snd (copyDir os src dst w)))"
  from Walk_copy_effects [of "Walk_visits os src" os src dst "emit (CalledMkdirAll dst perm_0755) w"]
  obtain new where
    "effects (snd (Walk (Walk_visits os src) (copyDir_fn os src dst)
        (emit (CalledMkdirAll dst perm_0755) w)))
       = effects (emit (CalledMkdirAll dst perm_0755) w) @ new"
    "\<forall>c. CalledStart c \<notin> set new"
    by blast
  with None a show ?thesis
    by (simp add: copyDir_def effects_emit)
qed

lemma Start_fails: "Start os cmd = Inl err \<Longrightarrow> \<exists>err2. Cmd_Start os cmd = Inl err2"
  by (simp add: Cmd_Start_def split: option.splits)

text \<open>
  C2: when the copy fails or the child cannot be started (the system refuses to start it,
  or \<open>Cmd.Start\<close> itself returns an error, as after a failed lookup of the executable),
  \<open>Deploy\<close> returns an error and the deployer is as it was: no command is recorded and the
  flag keeps its value (false when it was false). When it is the copy that fails, \<open>Start\<close>
  is not called.
\<close>

theorem Deploy_failure:
  assumes "fst (copyDir os (Join [MountLocation (deployer w), SourceLocation (Config (deployer w))])
                  (DeployLocation (Config (deployer w))) w) \<noteq> None
           \<or> (\<exists>err. Start os (deploy_cmd os (deployer w)) = Inl err)
           \<or> (\<exists>err. Cmd_Start os (deploy_cmd os (deployer w)) = Inl err)"
  shows "fst (Deploy os w) \<noteq> None
         \<and> deployer (snd (Deploy os w)) = deployer w
         \<and> currentCmd (deployer (snd (Deploy os w))) = currentCmd (deployer w)
         \<and> isRunning (deployer (snd (Deploy os w))) = isRunning (deployer w)
         \<and> (fst (copyDir os (Join [MountLocation (deployer w), SourceLocation (Config (deployer w))])
                  (DeployLocation (Config (deployer w))) w) \<noteq> None \<longrightarrow>
              (\<forall>c. CalledStart c \<in> set (effects (snd (Deploy os w)))
                     \<longrightarrow> CalledStart c \<in> set (effects w)))"
proof -
  let ?src = "Join [MountLocation (deployer w), SourceLocation (Config (deployer w))]"
  let ?dst = "DeployLocation (Config (deployer w))"
  obtain r w1 where c: "copyDir os ?src ?dst w = (r, w1)"
    by (cases "copyDir os ?src ?dst w")
  have d1: "deployer w1 = deployer w"
    using copyDir_deployer [of os ?src ?dst w] c by simp
  show ?thesis
  proof (cases r)
    case (Some err)
    have "\<forall>c. CalledStart c \<in> set (effects w1) \<longrightarrow> CalledStart c \<in> set (effects w)"
      using copyDir_no_start [of _ os ?src ?dst w] c by simp
    with Some c d1 show ?thesis
      by (simp add: Deploy_def Let_def)
  next
    case None
    with assms c have "(\<exists>err. Start os (deploy_cmd os (deployer w)) = Inl err)
        \<or> (\<exists>err. Cmd_Start os (deploy_cmd os (deployer w)) = Inl err)"
      by simp
    then obtain err where "Cmd_Start os (deploy_cmd os (deployer w)) = Inl err"
      using Start_fails by blast
    with None c d1 show ?thesis
      by (simp add: Deploy_def Let_def deployer_emit)
  qed
qed

theorem Deploy_failure_witness:
  "fst (Deploy sys_nostart world_idle) \<noteq> None
   \<and> currentCmd (deployer (snd (Deploy sys_nostart world_idle))) = None
   \<and> \<not> isRunning (deployer (snd (Deploy sys_nostart world_idle)))
   \<and> fst (Deploy sys_unreadable world_idle) \<noteq> None
   \<and> currentCmd (deployer (snd (Deploy sys_unreadable world_idle))) = None
   \<and> \<not> isRunning (deployer (snd (Deploy sys_unreadable world_idle)))
   \<and> CalledStart (deploy_cmd sys_unreadable (deployer world_idle))
       \<notin> set (effects (snd (Deploy sys_unreadable world_idle)))
   \<and> fst (Deploy sys_example world_bare) \<noteq> None
   \<and> currentCmd (deployer (snd (Deploy sys_example world_bare))) = None"
proof -
  have s: "\<exists>err. Start sys_nostart (deploy_cmd sys_nostart (deployer world_idle)) = Inl err"
    by (simp add: sys_nostart_def)
  have c: "fst (copyDir sys_unreadable
                  (Join [MountLocation (deployer world_idle),
                         SourceLocation (Config (deployer world_idle))])
                  (DeployLocation (Config (deployer world_idle))) world_idle) \<noteq> None"
    by code_simp
  have i: "currentCmd (deployer world_idle) = None" "\<not> isRunning (deployer world_idle)"
      "effects world_idle = []"
    by (simp_all add: world_idle_def)
  from Deploy_failure [of sys_nostart world_idle] s i
  have 1: "fst (Deploy sys_nostart world_idle) \<noteq> None
   \<and> currentCmd (deployer (snd (Deploy sys_nostart world_idle))) = None
   \<and> \<not> isRunning (deployer (snd (Deploy sys_nostart world_idle)))"
    by simp
  from Deploy_failure [of sys_unreadable world_idle] c i
  have 2: "fst (Deploy sys_unreadable world_idle) \<noteq> None
   \<and> currentCmd (deployer (snd (Deploy sys_unreadable world_idle))) = None
   \<and> \<not> isRunning (deployer (snd (Deploy sys_unreadable world_idle)))
   \<and> CalledStart (deploy_cmd sys_unreadable (deployer world_idle))
       \<notin> set (effects (snd (Deploy sys_unreadable world_idle)))"
    by auto
  have l: "Cmd_Start sys_example (deploy_cmd sys_example (deployer world_bare))
             = Inl ''executable file not found in $PATH''"
    by code_simp
  have j: "currentCmd (deployer world_bare) = None"
    by (simp add: world_bare_def world_idle_def)
  from Deploy_failure [of sys_example world_bare] l j
  have 3: "fst (Deploy sys_example world_bare) \<noteq> None
   \<and> currentCmd (deployer (snd (Deploy sys_example world_bare))) = None"
    by simp
  from 1 2 3 show ?thesis by simp
qed

text \<open>Every call only adds to the effects, and \<open>Redeploy\<close> always sleeps in between.\<close>

lemma Kill_extends: "\<exists>new. effects (snd (Kill os w)) = effects w @ new"
  by (simp add: Kill_def Kill_wait_result effects_emit split: option.splits)

lemma copyDir_extends: "\<exists>new. effects (snd (copyDir os src dst w)) = effects w @ new"
proof (cases "MkdirAll os dst perm_0755")
  case (Some err)
  then show ?thesis by (simp add: copyDir_def effects_emit)
next
  case None
  from Walk_copy_effects [of "Walk_visits os src" os src dst "emit (CalledMkdirAll dst perm_0755) w"]
  obtain new where
    "effects (snd (Walk (Walk_visits os src) (copyDir_fn os src dst)
        (emit (CalledMkdirAll dst perm_0755) w)))
       = effects (emit (CalledMkdirAll dst perm_0755) w) @ new"
    by blast
  with None show ?thesis by (simp add: copyDir_def effects_emit)
qed



section \<open>The modes of the copied entries\<close>



















lemma copy_calls_eq:
  "effects (snd (copyDir os src dst w)) = effects w @ copy_calls os src dst w"
  using copyDir_extends [of os src dst w] by (auto simp: copy_calls_def)










section \<open>Classifying events\<close>

lemma Clean_src: "Clean ''src'' = ''src''"
  by code_simp

lemma Clean_srcfoo: "Clean ''srcfoo/x'' = ''srcfoo/x''"
  by code_simp

lemma not_inside_srcfoo: "\<not> inside_dir ''src'' ''srcfoo/x''"
  by code_simp





text \<open>
  C9: \<open>isSourceFile\<close> is the prefix test on the two cleaned strings, not a test on path
  elements: with source location \<open>src\<close>, the path \<open>srcfoo/x\<close> is not inside the directory
  \<open>src\<close>, yet it counts as a source file and \<open>Handle\<close> redeploys.
\<close>

theorem prefix_not_component:
  assumes "SourceLocation (Config (deployer w)) = ''src''" and "RelPath event = ''srcfoo/x''"
  shows "isSourceFile (deployer w) rel
           = prefix (Clean (SourceLocation (Config (deployer w)))) (Clean rel)
         \<and> \<not> inside_dir (SourceLocation (Config (deployer w))) (RelPath event)
         \<and> isSourceFile (deployer w) (RelPath event)
         \<and> Handle os event w = snd (Redeploy os w)"
proof -
  have n: "RelPath event \<noteq> CONFIG_ID"
    using assms(2) by (simp add: CONFIG_ID_def)
  have s: "isSourceFile (deployer w) (RelPath event)"
    using assms by (simp add: isSourceFile_def HasPrefix_def Clean_src Clean_srcfoo)
  from n s have "Handle os event w = snd (Redeploy os w)"
    by (simp add: Handle_def)
  with s assms not_inside_srcfoo show ?thesis
    by (simp add: isSourceFile_def HasPrefix_def)
qed

theorem prefix_not_component_witness:
  "\<not> inside_dir ''src'' ''srcfoo/x''
   \<and> isSourceFile (deployer world_idle) ''srcfoo/x''
   \<and> Handle sys_example (event_of ''srcfoo/x'') world_idle = snd (Redeploy sys_example world_idle)"
proof -
  have a: "SourceLocation (Config (deployer world_idle)) = ''src''"
    by (simp add: world_idle_def cfg_example_def)
  have b: "RelPath (event_of ''srcfoo/x'') = ''srcfoo/x''"
    by (simp add: event_of_def)
  from prefix_not_component [OF a b, where os = sys_example and rel = "''srcfoo/x''"]
  have "\<not> inside_dir (SourceLocation (Config (deployer world_idle)))
            (RelPath (event_of ''srcfoo/x''))
        \<and> isSourceFile (deployer world_idle) (RelPath (event_of ''srcfoo/x''))
        \<and> Handle sys_example (event_of ''srcfoo/x'') world_idle
            = snd (Redeploy sys_example world_idle)"
    by blast
  with a b show ?thesis by simp
qed

section \<open>Properties of the file watcher\<close>

text \<open>What the walk function and the walk compute, in closed form.\<close>

lemma scan_fn_step:
  "scan_fn fw os p known init v (c, w) =
     (None,
      (case visit_rel os p v of None \<Rightarrow> c | Some rv \<Rightarrow> store rv c),
      (case visit_rel os p v of
         None \<Rightarrow> w
       | Some rv \<Rightarrow> (case visit_event known init rv of None \<Rightarrow> w | Some e \<Rightarrow> Notify fw e w)))"
proof (cases "visit_rel os p v")
  case None
  then show ?thesis
    by (auto simp: scan_fn_def visit_rel_def split: option.splits sum.splits if_splits)
next
  case (Some rv)
  obtain r v' where rv: "rv = (r, v')" by (cases rv)
  from Some rv have f: "v_err v = None" "\<not> info_IsDir (v_info v)" "Rel os p (v_path v) = Inr r" "v' = v"
    by (auto simp: visit_rel_def split: if_splits sum.splits)
  show ?thesis
  proof (cases "known r")
    case None
    with Some rv f show ?thesis
      by (simp add: scan_fn_def visit_event_def store_def state_of_def Let_def)
  next
    case (Some old)
    with \<open>visit_rel os p v = Some rv\<close> rv f show ?thesis
      by (simp add: scan_fn_def visit_event_def store_def state_of_def Let_def)
  qed
qed

lemma Walk_scan:
  "Walk vs (scan_fn fw os p known init) (c, w) =
     (None,
      fold store (List.map_filter (visit_rel os p) vs) c,
      fold (Notify fw) (List.map_filter (visit_event known init)
                          (List.map_filter (visit_rel os p) vs)) w)"
proof (induction vs arbitrary: c w)
  case Nil
  show ?case by (simp add: List.map_filter_simps)
next
  case (Cons v vs)
  show ?case
    by (simp add: scan_fn_step Cons.IH List.map_filter_simps split: option.splits)
qed

lemma fold_recorder: "fold (Notify recorder) evs log = log @ evs"
  by (induction evs arbitrary: log)
     (simp_all add: Notify_def recorder_def Subscribe_def NewFileWatcher_def record_event_def)

lemma walked_eq:
  "walked os p known init =
     (fold store (scanned os p) Map.empty,
      List.map_filter (visit_event known init) (scanned os p))"
  by (simp add: walked_def Walk_scan scanned_def fold_recorder)

lemma current_snapshot_eq: "current_snapshot os p = fold store (scanned os p) Map.empty"
  by (simp add: current_snapshot_def walked_eq)

lemma walk_events_eq:
  "walk_events os p known init = List.map_filter (visit_event known init) (scanned os p)"
  by (simp add: walk_events_def walked_eq)

lemma fold_deleted_step:
  "fold (deleted_step fw c) ks w =
     fold (Notify fw) (map deleted_event (filter (\<lambda>k. c k = None) ks)) w"
  by (induction ks arbitrary: w) (simp_all add: deleted_step_def split: option.splits)

lemma scanFiles_eq:
  "scanFiles fw os p known init w =
     (fold (prune_step (current_snapshot os p)) (range_merged os)
        (fold (update_step (current_snapshot os p)) (range_current os) known),
      fold (Notify fw)
        (walk_events os p known init
         @ (if init then []
            else map deleted_event
                   (filter (\<lambda>k. current_snapshot os p k = None) (range_known os)))) w)"
  by (simp add: scanFiles_def Walk_scan Let_def current_snapshot_eq walk_events_eq
      fold_deleted_step scanned_def)

lemma scan_events_eq:
  "scan_events os p known init =
     walk_events os p known init
     @ (if init then []
        else map deleted_event (filter (\<lambda>k. current_snapshot os p k = None) (range_known os)))"
  by (simp add: scan_events_def scanFiles_eq fold_recorder)

text \<open>
  Whatever the subscribers are, a scan notifies them of the events \<open>scan_events\<close>, in that
  order: the theorems below about \<open>scan_events\<close> are about every watcher.
\<close>

lemma scanFiles_delivers:
  "snd (scanFiles fw os p known init w) = fold (Notify fw) (scan_events os p known init) w"
  by (simp add: scanFiles_eq scan_events_eq)

lemma visit_event_initial: "visit_event Map.empty True rv = None"
  by (simp add: visit_event_def split: prod.splits)

lemma walk_events_initial: "walk_events os p Map.empty True = []"
  by (simp add: walk_events_eq List.map_filter_def visit_event_initial)

lemma scanned_scan:
  "scanned sys_scan ''/mnt/agent'' =
     [(''a.txt'', \<lparr>v_path = ''/mnt/agent/a.txt'', v_info = a_info, v_err = None\<rparr>),
      (''b.txt'', \<lparr>v_path = ''/mnt/agent/b.txt'', v_info = b_info, v_err = None\<rparr>)]"
  by code_simp

lemma snapshot_scan:
  "current_snapshot sys_scan ''/mnt/agent'' =
     [''a.txt'' \<mapsto> \<lparr>st_ModTime = 2000, st_Size = 150\<rparr>,
      ''b.txt'' \<mapsto> \<lparr>st_ModTime = 1500, st_Size = 7\<rparr>]"
  by (simp add: current_snapshot_eq scanned_scan store_def state_of_def a_info_def b_info_def)

lemma ranges_scan:
  "range_known sys_scan = [''gone.txt'', ''a.txt'']"
  "range_current sys_scan = [''b.txt'', ''a.txt'']"
  "range_merged sys_scan = [''a.txt'', ''gone.txt'', ''b.txt'']"
  by (simp_all add: sys_scan_def)

lemma fold_update_step:
  "fold (update_step c) ks m = (\<lambda>k. if k \<in> set ks \<and> c k \<noteq> None then c k else m k)"
proof (induction ks arbitrary: m)
  case Nil
  show ?case by simp
next
  case (Cons k ks)
  have "fold (update_step c) (k # ks) m = fold (update_step c) ks (update_step c k m)"
    by simp
  also have "\<dots> = (\<lambda>j. if j \<in> set ks \<and> c j \<noteq> None then c j else update_step c k m j)"
    by (rule Cons.IH)
  also have "\<dots> = (\<lambda>j. if j \<in> set (k # ks) \<and> c j \<noteq> None then c j else m j)"
    by (cases "c k") (auto simp: update_step_def fun_eq_iff)
  finally show ?case .
qed

lemma fold_prune_step:
  "fold (prune_step c) ks m = (\<lambda>k. if k \<in> set ks \<and> c k = None then None else m k)"
proof (induction ks arbitrary: m)
  case Nil
  show ?case by simp
next
  case (Cons k ks)
  have "fold (prune_step c) (k # ks) m = fold (prune_step c) ks (prune_step c k m)"
    by simp
  also have "\<dots> = (\<lambda>j. if j \<in> set ks \<and> c j = None then None else prune_step c k m j)"
    by (rule Cons.IH)
  also have "\<dots> = (\<lambda>j. if j \<in> set (k # ks) \<and> c j = None then None else m j)"
    by (cases "c k") (auto simp: prune_step_def fun_eq_iff)
  finally show ?case .
qed

lemma scanFiles_stores:
  assumes "range_of (current_snapshot os sharePath) (range_current os)"
    and "range_of (knownFiles ++ current_snapshot os sharePath) (range_merged os)"
  shows "fst (scanFiles fw os sharePath knownFiles isInitial w) = current_snapshot os sharePath"
proof
  fix k
  let ?c = "current_snapshot os sharePath"
  from assms have cur: "set (range_current os) = dom ?c"
    and mer: "set (range_merged os) = dom (knownFiles ++ ?c)"
    by (simp_all add: range_of_def)
  have stored: "fst (scanFiles fw os sharePath knownFiles isInitial w) k =
      (if k \<in> set (range_merged os) \<and> ?c k = None then None
       else if k \<in> set (range_current os) \<and> ?c k \<noteq> None then ?c k
       else knownFiles k)"
    by (simp add: scanFiles_eq fold_update_step fold_prune_step)
  show "fst (scanFiles fw os sharePath knownFiles isInitial w) k = ?c k"
  proof (cases "?c k")
    case None
    show ?thesis
    proof (cases "knownFiles k")
      case None
      with \<open>?c k = None\<close> stored show ?thesis by simp
    next
      case (Some st)
      with \<open>?c k = None\<close> have "k \<in> dom (knownFiles ++ ?c)" by (simp add: map_add_def dom_def)
      with mer \<open>?c k = None\<close> stored show ?thesis by simp
    qed
  next
    case (Some st)
    then have "k \<in> dom ?c" by (simp add: dom_def)
    with cur Some stored show ?thesis by simp
  qed
qed

text \<open>
  C6: after a scan the stored map is the map \<open>C\<close> the walk has built: every path of \<open>C\<close>
  with its state in \<open>C\<close>, and no other path. The two loops that update the stored map range
  over \<open>C\<close> and over the stored map after the first loop.
\<close>

theorem snapshot_replaced:
  assumes "range_of (current_snapshot os sharePath) (range_current os)"
    and "range_of (knownFiles ++ current_snapshot os sharePath) (range_merged os)"
  shows "fst (scanFiles fw os sharePath knownFiles isInitial w) = current_snapshot os sharePath"
  using assms by (rule scanFiles_stores)

theorem snapshot_replaced_witness:
  "fst (scanFiles recorder sys_scan ''/mnt/agent'' known_example False []) =
     [''a.txt'' \<mapsto> \<lparr>st_ModTime = 2000, st_Size = 150\<rparr>,
      ''b.txt'' \<mapsto> \<lparr>st_ModTime = 1500, st_Size = 7\<rparr>]"
proof -
  have c: "range_of (current_snapshot sys_scan ''/mnt/agent'') (range_current sys_scan)"
    by (auto simp: range_of_def snapshot_scan ranges_scan)
  have m: "range_of (known_example ++ current_snapshot sys_scan ''/mnt/agent'')
             (range_merged sys_scan)"
    by (auto simp: range_of_def snapshot_scan ranges_scan known_example_def)
  from snapshot_replaced [OF c m, of recorder False "[]"] show ?thesis
    by (simp add: snapshot_scan)
qed

lemma fold_store_distinct:
  "distinct (map fst xs) \<Longrightarrow>
   fold store xs c path = (case map_of xs path of None \<Rightarrow> c path | Some v \<Rightarrow> Some (state_of v))"
proof (induction xs arbitrary: c)
  case Nil
  show ?case by simp
next
  case (Cons x xs)
  obtain r v where x: "x = (r, v)" by (cases x)
  from Cons.prems x have d: "distinct (map fst xs)" and n: "r \<notin> fst ` set xs"
    by simp_all
  from n have m: "map_of xs r = None"
    by (simp add: map_of_eq_None_iff)
  have "fold store (x # xs) c path = fold store xs (store x c) path"
    by simp
  also have "\<dots> = (case map_of xs path of None \<Rightarrow> store x c path | Some v \<Rightarrow> Some (state_of v))"
    by (rule Cons.IH [OF d])
  also have "\<dots> = (case map_of (x # xs) path of None \<Rightarrow> c path | Some v \<Rightarrow> Some (state_of v))"
    using x m by (auto simp: store_def split: option.splits)
  finally show ?case .
qed

lemma fold_store_keys: "r \<in> fst ` set xs \<Longrightarrow> fold store xs c r \<noteq> None"
proof (induction xs arbitrary: c)
  case Nil
  then show ?case by simp
next
  case (Cons x xs)
  have keep: "fold store ys c' r \<noteq> None" if "c' r \<noteq> None" for ys c'
    using that by (induction ys arbitrary: c') (simp_all add: store_def)
  show ?case
  proof (cases "r \<in> fst ` set xs")
    case True
    then show ?thesis by (simp add: Cons.IH)
  next
    case False
    with Cons.prems have "fst x = r" by auto
    then have "store x c r \<noteq> None" by (simp add: store_def)
    then show ?thesis by (simp add: keep)
  qed
qed

lemma visit_event_Some:
  "visit_event known init (r, v) = Some e \<Longrightarrow>
   RelPath e = r \<and> (ChangeType e = ''created'' \<or> ChangeType e = ''modified'')"
  by (auto simp: visit_event_def Let_def split: option.splits if_splits)

lemma map_filter_events:
  "e \<in> set (List.map_filter (visit_event known init) xs) \<Longrightarrow>
   RelPath e \<in> fst ` set xs \<and> (ChangeType e = ''created'' \<or> ChangeType e = ''modified'')"
proof (induction xs)
  case Nil
  then show ?case by (simp add: List.map_filter_simps)
next
  case (Cons x xs)
  obtain r v where x: "x = (r, v)" by (cases x)
  show ?case
  proof (cases "visit_event known init x")
    case None
    with Cons show ?thesis by (simp add: List.map_filter_simps)
  next
    case (Some e')
    with x have "RelPath e' = r \<and> (ChangeType e' = ''created'' \<or> ChangeType e' = ''modified'')"
      using visit_event_Some [of known init r v e'] by simp
    with Cons Some x show ?thesis by (auto simp: List.map_filter_simps)
  qed
qed

lemma filter_events_distinct:
  "distinct (map fst xs) \<Longrightarrow>
   filter (\<lambda>e. RelPath e = path) (List.map_filter (visit_event known init) xs) =
     (case map_of xs path of
        None \<Rightarrow> []
      | Some v \<Rightarrow> (case visit_event known init (path, v) of None \<Rightarrow> [] | Some e \<Rightarrow> [e]))"
proof (induction xs)
  case Nil
  show ?case by (simp add: List.map_filter_simps)
next
  case (Cons x xs)
  obtain r v where x: "x = (r, v)" by (cases x)
  from Cons.prems x have d: "distinct (map fst xs)" and n: "r \<notin> fst ` set xs"
    by simp_all
  note IH = Cons.IH [OF d]
  show ?case
  proof (cases "r = path")
    case True
    with n have m: "map_of xs path = None"
      by (simp add: map_of_eq_None_iff)
    with IH have rest: "filter (\<lambda>e. RelPath e = path) (List.map_filter (visit_event known init) xs) = []"
      by simp
    show ?thesis
    proof (cases "visit_event known init (r, v)")
      case None
      with True x rest show ?thesis by (simp add: List.map_filter_simps)
    next
      case (Some e)
      then have "RelPath e = r" using visit_event_Some by blast
      with Some True x rest show ?thesis by (simp add: List.map_filter_simps)
    qed
  next
    case False
    show ?thesis
    proof (cases "visit_event known init (r, v)")
      case None
      with False x IH show ?thesis by (simp add: List.map_filter_simps)
    next
      case (Some e)
      then have "RelPath e = r" using visit_event_Some by blast
      with Some False x IH show ?thesis by (simp add: List.map_filter_simps)
    qed
  qed
qed

lemma filter_deleted:
  "filter (\<lambda>e. RelPath e = path) (map deleted_event ks) = map deleted_event (filter (\<lambda>k. k = path) ks)"
  by (induction ks) (simp_all add: deleted_event_def)

lemma filter_eq_distinct: "distinct ks \<Longrightarrow> path \<in> set ks \<Longrightarrow> filter (\<lambda>k. k = path) ks = [path]"
  by (induction ks) (auto simp: filter_empty_conv)

lemma snapshot_initial:
  "current_snapshot sys_initial ''/mnt/agent'' =
     [''a.txt'' \<mapsto> \<lparr>st_ModTime = 2000, st_Size = 150\<rparr>,
      ''b.txt'' \<mapsto> \<lparr>st_ModTime = 1500, st_Size = 7\<rparr>]"
proof -
  have "scanned sys_initial ''/mnt/agent'' =
     [(''a.txt'', \<lparr>v_path = ''/mnt/agent/a.txt'', v_info = a_info, v_err = None\<rparr>),
      (''b.txt'', \<lparr>v_path = ''/mnt/agent/b.txt'', v_info = b_info, v_err = None\<rparr>)]"
    by code_simp
  then show ?thesis
    by (simp add: current_snapshot_eq store_def state_of_def a_info_def b_info_def)
qed

text \<open>
  C3: the initial scan (\<open>isInitial = true\<close>, empty map of known files), as \<open>pollloop\<close> makes
  it once its ticker exists, notifies no subscriber of anything, whatever the walk visits:
  the state of the subscribers is unchanged and the list of events is empty. What the scan
  does is store the baseline: the stored map becomes the map the walk has built, which
  holds, for every file the walk records, the size and the time of its visit.
\<close>

theorem initial_scan_baseline:
  "snd (scanFiles fw os sharePath Map.empty True w) = w
   \<and> scan_events os sharePath Map.empty True = []
   \<and> (range_of (current_snapshot os sharePath) (range_current os)
        \<and> range_of (current_snapshot os sharePath) (range_merged os) \<longrightarrow>
      fst (scanFiles fw os sharePath Map.empty True w) = current_snapshot os sharePath)
   \<and> current_snapshot os sharePath = fold store (scanned os sharePath) Map.empty
   \<and> (distinct (map fst (scanned os sharePath)) \<longrightarrow>
      (\<forall>path. current_snapshot os sharePath path
                = map_option state_of (map_of (scanned os sharePath) path)))
   \<and> (0 < Interval fw \<longrightarrow>
      pollloop fw os [] w = Inr (scanFiles fw os (Path fw) Map.empty True w))"
proof -
  have a: "snd (scanFiles fw os sharePath Map.empty True w) = w"
    by (simp add: scanFiles_eq walk_events_initial)
  have b: "scan_events os sharePath Map.empty True = []"
    by (simp add: scan_events_eq walk_events_initial)
  have c: "range_of (current_snapshot os sharePath) (range_current os)
        \<and> range_of (current_snapshot os sharePath) (range_merged os) \<longrightarrow>
      fst (scanFiles fw os sharePath Map.empty True w) = current_snapshot os sharePath"
    using scanFiles_stores [of os sharePath Map.empty fw True w] by simp
  have d: "current_snapshot os sharePath = fold store (scanned os sharePath) Map.empty"
    by (rule current_snapshot_eq)
  have e: "distinct (map fst (scanned os sharePath)) \<longrightarrow>
      (\<forall>path. current_snapshot os sharePath path
                = map_option state_of (map_of (scanned os sharePath) path))"
    by (auto simp: current_snapshot_eq fold_store_distinct split: option.splits)
  have f: "0 < Interval fw \<longrightarrow>
      pollloop fw os [] w = Inr (scanFiles fw os (Path fw) Map.empty True w)"
    by (simp add: pollloop_def)
  show ?thesis
    by (intro conjI) (rule a b c d e f)+
qed

theorem initial_scan_baseline_witness:
  "snd (scanFiles watcher_example sys_initial ''/mnt/agent'' Map.empty True []) = []
   \<and> fst (scanFiles watcher_example sys_initial ''/mnt/agent'' Map.empty True []) =
       [''a.txt'' \<mapsto> \<lparr>st_ModTime = 2000, st_Size = 150\<rparr>,
        ''b.txt'' \<mapsto> \<lparr>st_ModTime = 1500, st_Size = 7\<rparr>]
   \<and> pollloop watcher_example sys_initial [] [] =
       Inr ([''a.txt'' \<mapsto> \<lparr>st_ModTime = 2000, st_Size = 150\<rparr>,
             ''b.txt'' \<mapsto> \<lparr>st_ModTime = 1500, st_Size = 7\<rparr>], [])"
proof -
  have g: "range_current sys_initial = [''b.txt'', ''a.txt'']"
      "range_merged sys_initial = [''a.txt'', ''b.txt'']"
    by (simp_all add: sys_initial_def)
  have r: "range_of (current_snapshot sys_initial ''/mnt/agent'') (range_current sys_initial)
           \<and> range_of (current_snapshot sys_initial ''/mnt/agent'') (range_merged sys_initial)"
    by (auto simp: range_of_def snapshot_initial g)
  have i: "0 < Interval watcher_example" "Path watcher_example = ''/mnt/agent''"
    by (simp_all add: watcher_example_def Subscribe_def NewFileWatcher_def)
  from initial_scan_baseline [of watcher_example sys_initial "''/mnt/agent''" "[]"] r i
  have "snd (scanFiles watcher_example sys_initial ''/mnt/agent'' Map.empty True []) = []
    \<and> fst (scanFiles watcher_example sys_initial ''/mnt/agent'' Map.empty True [])
        = current_snapshot sys_initial ''/mnt/agent''
    \<and> pollloop watcher_example sys_initial [] []
        = Inr (scanFiles watcher_example sys_initial ''/mnt/agent'' Map.empty True [])"
    by simp
  then show ?thesis
    by (simp add: snapshot_initial prod_eq_iff)
qed

text \<open>
  C4: for a path that is in the previous map \<open>P\<close> and in the current map \<open>C\<close>, a scan sends
  exactly one event, of type modified and with the new size and time, when the size or the
  modification time differ, and no event at all when both are equal. A walk visits every
  file once, so the relative paths it records are distinct.
\<close>

theorem modified_once:
  assumes "distinct (map fst (scanned os sharePath))"
    and "knownFiles path = Some old"
    and "current_snapshot os sharePath path = Some new"
  shows "map (\<lambda>e. (ChangeType e, Size e, ModTime e))
           (filter (\<lambda>e. RelPath e = path) (scan_events os sharePath knownFiles isInitial))
         = (if st_Size old \<noteq> st_Size new \<or> st_ModTime old \<noteq> st_ModTime new
            then [(''modified'', st_Size new, st_ModTime new)]
            else [])"
proof -
  from assms(1,3) obtain v where v: "map_of (scanned os sharePath) path = Some v"
    and n: "new = state_of v"
    by (auto simp: current_snapshot_eq fold_store_distinct split: option.splits)
  have del: "filter (\<lambda>k. k = path)
               (filter (\<lambda>k. current_snapshot os sharePath k = None) (range_known os)) = []"
    using assms(3) by (auto simp: filter_empty_conv)
  have "filter (\<lambda>e. RelPath e = path) (scan_events os sharePath knownFiles isInitial)
        = (case visit_event knownFiles isInitial (path, v) of None \<Rightarrow> [] | Some e \<Rightarrow> [e])"
    using v del
    by (simp add: scan_events_eq walk_events_eq filter_events_distinct [OF assms(1)] filter_deleted)
  with assms(2) n show ?thesis
    by (auto simp: visit_event_def state_of_def Let_def)
qed

theorem modified_once_witness:
  "map (\<lambda>e. (ChangeType e, Size e, ModTime e))
     (filter (\<lambda>e. RelPath e = ''a.txt'') (scan_events sys_scan ''/mnt/agent'' known_example False))
   = [(''modified'', 150, 2000)]"
proof -
  have d: "distinct (map fst (scanned sys_scan ''/mnt/agent''))"
    by (simp add: scanned_scan)
  have k: "known_example ''a.txt'' = Some \<lparr>st_ModTime = 1000, st_Size = 100\<rparr>"
    by (simp add: known_example_def)
  have c: "current_snapshot sys_scan ''/mnt/agent'' ''a.txt''
             = Some \<lparr>st_ModTime = 2000, st_Size = 150\<rparr>"
    by (simp add: snapshot_scan)
  from modified_once [where knownFiles = known_example and path = "''a.txt''"
      and isInitial = False, OF d k c]
  show ?thesis by simp
qed

text \<open>
  C5: in a scan that is not the initial one, the events are those of the walk, all of type
  created or modified, followed by the deleted events; every deleted event is for a path of
  the previous map that the finished walk has not recorded; and each such path has exactly
  one event in the scan, its deleted event.
\<close>

theorem deleted_after_walk:
  assumes "range_of knownFiles (range_known os)"
  shows "\<exists>dels. scan_events os sharePath knownFiles False
                 = walk_events os sharePath knownFiles False @ dels
     \<and> (\<forall>e \<in> set (walk_events os sharePath knownFiles False).
           ChangeType e = ''created'' \<or> ChangeType e = ''modified'')
     \<and> (\<forall>e \<in> set dels. ChangeType e = ''deleted''
           \<and> knownFiles (RelPath e) \<noteq> None
           \<and> current_snapshot os sharePath (RelPath e) = None)
     \<and> (\<forall>path. knownFiles path \<noteq> None \<and> current_snapshot os sharePath path = None \<longrightarrow>
           filter (\<lambda>e. RelPath e = path) (scan_events os sharePath knownFiles False)
             = [deleted_event path])"
proof -
  let ?c = "current_snapshot os sharePath"
  let ?dels = "map deleted_event (filter (\<lambda>k. ?c k = None) (range_known os))"
  from assms have dist: "distinct (range_known os)" and keys: "set (range_known os) = dom knownFiles"
    by (simp_all add: range_of_def)
  have a: "scan_events os sharePath knownFiles False
             = walk_events os sharePath knownFiles False @ ?dels"
    by (simp add: scan_events_eq)
  have b: "\<forall>e \<in> set (walk_events os sharePath knownFiles False).
             ChangeType e = ''created'' \<or> ChangeType e = ''modified''"
    using map_filter_events by (auto simp: walk_events_eq)
  have c: "\<forall>e \<in> set ?dels. ChangeType e = ''deleted''
             \<and> knownFiles (RelPath e) \<noteq> None \<and> ?c (RelPath e) = None"
    using keys by (auto simp: deleted_event_def)
  have d: "\<forall>path. knownFiles path \<noteq> None \<and> ?c path = None \<longrightarrow>
             filter (\<lambda>e. RelPath e = path) (scan_events os sharePath knownFiles False)
               = [deleted_event path]"
  proof (intro allI impI)
    fix path
    assume p: "knownFiles path \<noteq> None \<and> ?c path = None"
    have "filter (\<lambda>e. RelPath e = path) (walk_events os sharePath knownFiles False) = []"
    proof -
      have "RelPath e \<noteq> path" if "e \<in> set (walk_events os sharePath knownFiles False)" for e
      proof
        assume "RelPath e = path"
        with that have "path \<in> fst ` set (scanned os sharePath)"
          using map_filter_events [of e knownFiles False "scanned os sharePath"]
          by (simp add: walk_events_eq)
        then have "?c path \<noteq> None"
          by (simp add: current_snapshot_eq fold_store_keys)
        with p show False by simp
      qed
      then show ?thesis by (auto simp: filter_empty_conv)
    qed
    moreover have "filter (\<lambda>e. RelPath e = path) ?dels = [deleted_event path]"
    proof -
      from p keys have "path \<in> set (range_known os)" by (auto simp: dom_def)
      with p have "path \<in> set (filter (\<lambda>k. ?c k = None) (range_known os))" by simp
      moreover from dist have "distinct (filter (\<lambda>k. ?c k = None) (range_known os))" by simp
      ultimately show ?thesis
        by (simp only: filter_deleted filter_eq_distinct) simp
    qed
    ultimately show "filter (\<lambda>e. RelPath e = path) (scan_events os sharePath knownFiles False)
                       = [deleted_event path]"
      by (simp add: a)
  qed
  show ?thesis
    by (intro exI [of _ ?dels] conjI) (rule a b c d)+
qed

theorem deleted_after_walk_witness:
  "filter (\<lambda>e. RelPath e = ''gone.txt'') (scan_events sys_scan ''/mnt/agent'' known_example False)
     = [deleted_event ''gone.txt'']
   \<and> ChangeType (deleted_event ''gone.txt'') = ''deleted''"
proof -
  have r: "range_of known_example (range_known sys_scan)"
    by (auto simp: range_of_def known_example_def ranges_scan)
  have g: "known_example ''gone.txt'' \<noteq> None
           \<and> current_snapshot sys_scan ''/mnt/agent'' ''gone.txt'' = None"
    by (simp add: known_example_def snapshot_scan)
  from deleted_after_walk [OF r, of "''/mnt/agent''"] g
  have "filter (\<lambda>e. RelPath e = ''gone.txt'')
          (scan_events sys_scan ''/mnt/agent'' known_example False)
        = [deleted_event ''gone.txt'']"
    by blast
  then show ?thesis by (simp add: deleted_event_def)
qed

end
